theory Spec2Isabelle
  imports Complex_Main
begin

section \<open>Numbers of the notebook\<close>

text \<open>
  The notebook computes with numpy's float64. The model keeps the IEEE special values,
  which decide what happens on a division by zero, and takes the finite values as exact
  reals: rounding and the sign of zero are not modelled.
\<close>

datatype npfloat = Fin real | PInf | NInf | NaN

fun fl_add :: "npfloat \<Rightarrow> npfloat \<Rightarrow> npfloat" where
  "fl_add NaN y = NaN"
| "fl_add x NaN = NaN"
| "fl_add PInf NInf = NaN"
| "fl_add NInf PInf = NaN"
| "fl_add PInf y = PInf"
| "fl_add x PInf = PInf"
| "fl_add NInf y = NInf"
| "fl_add x NInf = NInf"
| "fl_add (Fin a) (Fin b) = Fin (a + b)"

fun fl_neg :: "npfloat \<Rightarrow> npfloat" where
  "fl_neg (Fin a) = Fin (- a)"
| "fl_neg PInf = NInf"
| "fl_neg NInf = PInf"
| "fl_neg NaN = NaN"

definition fl_sub :: "npfloat \<Rightarrow> npfloat \<Rightarrow> npfloat" where
  "fl_sub x y = fl_add x (fl_neg y)"

fun fl_abs :: "npfloat \<Rightarrow> npfloat" where
  "fl_abs (Fin a) = Fin \<bar>a\<bar>"
| "fl_abs PInf = PInf"
| "fl_abs NInf = PInf"
| "fl_abs NaN = NaN"

text \<open>Every comparison with NaN is false.\<close>

fun fl_lt :: "npfloat \<Rightarrow> npfloat \<Rightarrow> bool" where
  "fl_lt NaN y = False"
| "fl_lt x NaN = False"
| "fl_lt x NInf = False"
| "fl_lt PInf y = False"
| "fl_lt NInf y = True"
| "fl_lt x PInf = True"
| "fl_lt (Fin a) (Fin b) = (a < b)"


text \<open>
  numpy's true division of arrays: a division by zero raises nothing, it gives an
  infinity, or NaN for \<open>0 / 0\<close>.
\<close>

fun fl_div :: "npfloat \<Rightarrow> npfloat \<Rightarrow> npfloat" where
  "fl_div NaN y = NaN"
| "fl_div x NaN = NaN"
| "fl_div (Fin a) (Fin b) =
     (if b = 0 then (if a = 0 then NaN else if 0 < a then PInf else NInf)
      else Fin (a / b))"
| "fl_div (Fin a) PInf = Fin 0"
| "fl_div (Fin a) NInf = Fin 0"
| "fl_div PInf (Fin b) = (if 0 \<le> b then PInf else NInf)"
| "fl_div NInf (Fin b) = (if 0 \<le> b then NInf else PInf)"
| "fl_div PInf y = NaN"
| "fl_div NInf y = NaN"

text \<open>\<open>np.sum\<close> of one row.\<close>

definition np_sum :: "npfloat list \<Rightarrow> npfloat" where
  "np_sum xs = foldl fl_add (Fin 0) xs"

section \<open>The State Sampler\<close>

text \<open>
  \<open>generate_state\<close> draws \<open>u = np.random.rand()\<close> and scans the row from index 0.
  The draw is a parameter of the model. When the loop ends without a hit the Python
  function falls off its end and returns \<open>None\<close>.
\<close>

function scan_row :: "real \<Rightarrow> npfloat list \<Rightarrow> nat \<Rightarrow> nat option" where
  "scan_row u PC_row j =
     (if j < length PC_row
      then (if fl_lt (Fin u) (PC_row ! j) then Some j else scan_row u PC_row (Suc j))
      else None)"
  by pat_completeness auto
termination
  by (relation "measure (\<lambda>(u, PC_row, j). length PC_row - j)") auto

definition generate_state :: "real \<Rightarrow> npfloat list \<Rightarrow> nat option" where
  "generate_state u PC_row = scan_row u PC_row 0"

declare scan_row.simps [simp del]

section \<open>Setup cell: row normalisation and leaving rates\<close>

text \<open>
  \<open>row_sums = P.sum(axis=-1, keepdims=True)\<close>, \<open>P = P / row_sums\<close> and
  \<open>q = row_sums\<close>. A matrix is the list of its rows.
\<close>

definition row_sums :: "npfloat list list \<Rightarrow> npfloat list" where
  "row_sums P = map np_sum P"

definition normalized :: "npfloat list list \<Rightarrow> npfloat list list" where
  "normalized P = map (\<lambda>row. map (\<lambda>x. fl_div x (np_sum row)) row) P"

definition leaving_rates :: "npfloat list list \<Rightarrow> npfloat list" where
  "leaving_rates P = row_sums P"

section \<open>Cumulative matrix\<close>

text \<open>
  \<open>m.shape[-1]\<close> is the number of columns. For each \<open>i\<close> from 1 to that number the
  source sums the first \<open>i\<close> entries of every row, which gives one column of the result,
  and transposes the list of columns. On a vector (the starting distribution) the sums
  are scalars and the transposition changes nothing.
\<close>

definition ncols :: "npfloat list list \<Rightarrow> nat" where
  "ncols m = (case m of [] \<Rightarrow> 0 | row # _ \<Rightarrow> length row)"

definition cumulative_matrix :: "npfloat list list \<Rightarrow> npfloat list list" where
  "cumulative_matrix m =
     transpose (map (\<lambda>i. map (\<lambda>row. np_sum (take i row)) m) [1..<ncols m + 1])"

definition cumulative_matrix_1d :: "npfloat list \<Rightarrow> npfloat list" where
  "cumulative_matrix_1d v = map (\<lambda>i. np_sum (take i v)) [1..<length v + 1]"

section \<open>Simulation cells\<close>

text \<open>The assertion that opens the simulation cell.\<close>

definition row_sums_are_one :: "npfloat list list \<Rightarrow> bool" where
  "row_sums_are_one P =
     list_all (\<lambda>row. fl_lt (fl_abs (fl_sub (np_sum row) (Fin 1))) (Fin (1 / 100000))) P"

text \<open>
  Indexing by a Python integer: a negative index counts from the end, an index out of
  range raises \<open>IndexError\<close>.
\<close>

definition np_getitem :: "'a list \<Rightarrow> int \<Rightarrow> 'a option" where
  "np_getitem xs k =
     (let n = int (length xs)
      in if 0 \<le> k \<and> k < n then Some (xs ! nat k)
         else if - n \<le> k \<and> k < 0 then Some (xs ! nat (n + k))
         else None)"

text \<open>
  The variable \<open>i\<close> of the notebook holds an integer, or \<open>None\<close> after a draw for which
  \<open>generate_state\<close> found no index; the walks hold the values \<open>i\<close> took. numpy reads
  \<open>PC[None]\<close> as the insertion of an axis, not as a row: the model ends a run there,
  with \<open>NoneIndex\<close>.
\<close>

type_synonym pystate = "int option"

datatype py_error = IndexError | ZeroDivisionError | NoneIndex

datatype start_spec = StartIndex int | StartDist "npfloat list"

record config =
  PC :: "npfloat list list"
  starting_state :: start_spec
  terminal_states :: "int list"
  rng :: "nat \<Rightarrow> real"

text \<open>
  \<open>rng cfg k\<close> is the value of the \<open>k\<close>-th call of \<open>np.random.rand()\<close>; \<open>draws\<close>
  counts the calls made so far.
\<close>

record sim =
  all_walks :: "pystate list list"
  final_states :: "pystate list"
  state_i :: pystate
  walk :: "pystate list"
  draws :: nat

datatype run = Completed sim | Stopped py_error sim | AssertionFailed

definition in_terminal :: "pystate \<Rightarrow> int list \<Rightarrow> bool" where
  "in_terminal s ts = (case s of None \<Rightarrow> False | Some x \<Rightarrow> x \<in> set ts)"

text \<open>
  A starting state: the fixed index, or a draw from the cumulative starting
  distribution (\<open>starting_state_C\<close>, which the source computes once; it is a pure
  function of the starting distribution).
\<close>

definition start_state :: "config \<Rightarrow> nat \<Rightarrow> pystate \<times> nat" where
  "start_state cfg k =
     (case starting_state cfg of
        StartIndex s \<Rightarrow> (Some s, k)
      | StartDist v \<Rightarrow>
          (map_option int (generate_state (rng cfg k) (cumulative_matrix_1d v)), Suc k))"

text \<open>\<open>i = generate_state(PC[i])\<close> followed by \<open>walk.append(i)\<close>.\<close>

definition transition :: "config \<Rightarrow> sim \<Rightarrow> py_error + sim" where
  "transition cfg st =
     (case state_i st of
        None \<Rightarrow> Inl NoneIndex
      | Some s \<Rightarrow>
          (case np_getitem (PC cfg) s of
             None \<Rightarrow> Inl IndexError
           | Some PC_row \<Rightarrow>
               (let j = map_option int (generate_state (rng cfg (draws st)) PC_row)
                in Inr (st\<lparr>state_i := j, walk := walk st @ [j], draws := Suc (draws st)\<rparr>))))"

text \<open>The body of the step-budgeted loop.\<close>

definition step :: "config \<Rightarrow> sim \<Rightarrow> py_error + sim" where
  "step cfg st =
     (case transition cfg st of
        Inl e \<Rightarrow> Inl e
      | Inr st1 \<Rightarrow>
          if in_terminal (state_i st1) (terminal_states cfg)
          then (let (s, k) = start_state cfg (draws st1)
                in Inr \<lparr>all_walks = all_walks st1 @ [walk st1],
                        final_states = final_states st1 @ [state_i st1],
                        state_i = s, walk = [s], draws = k\<rparr>)
          else Inr st1)"

fun steps_loop :: "config \<Rightarrow> nat \<Rightarrow> sim \<Rightarrow> run" where
  "steps_loop cfg 0 st = Completed st"
| "steps_loop cfg (Suc n) st =
     (case step cfg st of
        Inl e \<Rightarrow> Stopped e st
      | Inr st' \<Rightarrow> steps_loop cfg n st')"

text \<open>
  The simulation cell in step-budgeted mode, from the assertion on the row sums to the
  end of the loop.
\<close>

definition simulation ::
  "npfloat list list \<Rightarrow> start_spec \<Rightarrow> int list \<Rightarrow> nat \<Rightarrow> (nat \<Rightarrow> real) \<Rightarrow> run" where
  "simulation P start ts steps r =
     (if \<not> row_sums_are_one P then AssertionFailed
      else (let cfg = \<lparr>PC = cumulative_matrix P, starting_state = start,
                         terminal_states = ts, rng = r\<rparr>;
                (s, k) = start_state cfg 0
            in steps_loop cfg steps
                 \<lparr>all_walks = [], final_states = [], state_i = s, walk = [s], draws = k\<rparr>))"

text \<open>
  Walk-budgeted mode. The inner \<open>while\<close> loop has no bound: a run that never reaches a
  terminal state is the value \<open>None\<close>. The cell appends to the collections it finds.
\<close>

partial_function (option) until_terminal :: "config \<Rightarrow> sim \<Rightarrow> run option" where
  "until_terminal cfg st =
     (if in_terminal (state_i st) (terminal_states cfg) then Some (Completed st)
      else (case transition cfg st of
              Inl e \<Rightarrow> Some (Stopped e st)
            | Inr st' \<Rightarrow> until_terminal cfg st'))"

fun walks_loop :: "config \<Rightarrow> nat \<Rightarrow> sim \<Rightarrow> run option" where
  "walks_loop cfg 0 st = Some (Completed st)"
| "walks_loop cfg (Suc n) st =
     (let (s, k) = start_state cfg (draws st)
      in case until_terminal cfg (st\<lparr>state_i := s, walk := [s], draws := k\<rparr>) of
           None \<Rightarrow> None
         | Some AssertionFailed \<Rightarrow> Some AssertionFailed
         | Some (Stopped e st') \<Rightarrow> Some (Stopped e st')
         | Some (Completed st') \<Rightarrow>
             walks_loop cfg n
               (st'\<lparr>final_states := final_states st' @ [state_i st'],
                    all_walks := all_walks st' @ [walk st']\<rparr>))"

section \<open>Reaching times\<close>



section \<open>Results: absorption proportions\<close>

text \<open>
  \<open>[sum([1 for i in final_states if i == j]) / len(final_states) for j in terminal_states]\<close>:
  a division of Python integers, which raises \<open>ZeroDivisionError\<close> on a zero divisor.
\<close>

definition py_truediv :: "int \<Rightarrow> int \<Rightarrow> py_error + real" where
  "py_truediv a b = (if b = 0 then Inl ZeroDivisionError else Inr (real_of_int a / real_of_int b))"

definition absorbed :: "pystate list \<Rightarrow> int \<Rightarrow> int" where
  "absorbed fs j = sum_list (map (\<lambda>i. 1) (filter (\<lambda>i. i = Some j) fs))"

fun absorption_proportions :: "pystate list \<Rightarrow> int list \<Rightarrow> py_error + real list" where
  "absorption_proportions fs [] = Inr []"
| "absorption_proportions fs (j # ts) =
     (case py_truediv (absorbed fs j) (int (length fs)) of
        Inl e \<Rightarrow> Inl e
      | Inr p \<Rightarrow>
          (case absorption_proportions fs ts of
             Inl e \<Rightarrow> Inl e
           | Inr ps \<Rightarrow> Inr (p # ps)))"

section \<open>Predicates of the statements\<close>

text \<open>
  A closed walk: its last state is terminal and no state strictly between the first and
  the last is.
\<close>

definition walk_closed :: "int list \<Rightarrow> pystate list \<Rightarrow> bool" where
  "walk_closed ts w =
     (w \<noteq> [] \<and> in_terminal (last w) ts \<and> list_all (\<lambda>x. \<not> in_terminal x ts) (butlast (tl w)))"

text \<open>The two collections are parallel: one final state for each walk, its last state.\<close>

definition parallel :: "sim \<Rightarrow> bool" where
  "parallel st = (final_states st = map last (all_walks st))"

text \<open>The state a run ended in, when the cell got as far as creating the collections.\<close>

fun state_of :: "run \<Rightarrow> sim option" where
  "state_of (Completed st) = Some st"
| "state_of (Stopped e st) = Some st"
| "state_of AssertionFailed = None"

text \<open>The invariant of the step-budgeted loop, at the head of each iteration.\<close>

definition step_inv :: "int list \<Rightarrow> sim \<Rightarrow> bool" where
  "step_inv ts st =
     (list_all (\<lambda>w. 2 \<le> length w \<and> walk_closed ts w) (all_walks st) \<and> parallel st \<and>
      walk st \<noteq> [] \<and> last (walk st) = state_i st \<and>
      list_all (\<lambda>x. \<not> in_terminal x ts) (tl (walk st)))"

text \<open>
  The invariant of the inner loop of walk-budgeted mode, and what holds of its result: the
  collections are those at its entry, and on a normal exit the current state is terminal.
\<close>

definition walk_inv :: "int list \<Rightarrow> sim \<Rightarrow> bool" where
  "walk_inv ts st =
     (walk st \<noteq> [] \<and> last (walk st) = state_i st \<and>
      list_all (\<lambda>x. \<not> in_terminal x ts) (butlast (walk st)))"

definition same_collections :: "sim \<Rightarrow> sim \<Rightarrow> bool" where
  "same_collections st st' = (all_walks st' = all_walks st \<and> final_states st' = final_states st)"

definition until_post :: "config \<Rightarrow> sim \<Rightarrow> run \<Rightarrow> bool" where
  "until_post cfg st res =
     (\<exists>st'. same_collections st st' \<and>
           (res = Completed st' \<and> walk_inv (terminal_states cfg) st' \<and>
              in_terminal (state_i st') (terminal_states cfg)
            \<or> (\<exists>e. res = Stopped e st')))"

text \<open>A walk with no terminal state before its last, terminal, state.\<close>

definition strictly_closed :: "int list \<Rightarrow> pystate list \<Rightarrow> bool" where
  "strictly_closed ts w =
     (w \<noteq> [] \<and> in_terminal (last w) ts \<and> list_all (\<lambda>x. \<not> in_terminal x ts) (butlast w))"

text \<open>A finite value, as opposed to an infinity or NaN.\<close>

fun is_fin :: "npfloat \<Rightarrow> bool" where
  "is_fin (Fin a) = True"
| "is_fin x = False"


section \<open>The State Sampler returns the first index above the draw\<close>

lemma scan_row_Some:
  "scan_row u row j = Some k \<Longrightarrow>
     j \<le> k \<and> k < length row \<and> fl_lt (Fin u) (row ! k) \<and>
     (\<forall>i. j \<le> i \<and> i < k \<longrightarrow> \<not> fl_lt (Fin u) (row ! i))"
proof (induction u row j rule: scan_row.induct)
  case (1 u PC_row j)
  from "1.prems" have jl: "j < length PC_row"
    by (cases "j < length PC_row") (simp_all add: scan_row.simps [of u PC_row j])
  show ?case
  proof (cases "fl_lt (Fin u) (PC_row ! j)")
    case True
    with jl "1.prems" have "k = j"
      by (simp add: scan_row.simps [of u PC_row j])
    with jl True show ?thesis by auto
  next
    case False
    with jl "1.prems" have "scan_row u PC_row (Suc j) = Some k"
      by (simp add: scan_row.simps [of u PC_row j])
    with "1.IH" jl False
    have ih: "Suc j \<le> k \<and> k < length PC_row \<and> fl_lt (Fin u) (PC_row ! k) \<and>
     (\<forall>i. Suc j \<le> i \<and> i < k \<longrightarrow> \<not> fl_lt (Fin u) (PC_row ! i))" by simp
    have "\<not> fl_lt (Fin u) (PC_row ! i)" if "j \<le> i" "i < k" for i
    proof (cases "i = j")
      case True
      with False show ?thesis by simp
    next
      case ne: False
      with that have "Suc j \<le> i" by simp
      with ih that show ?thesis by blast
    qed
    with ih show ?thesis by auto
  qed
qed

lemma scan_row_None:
  "scan_row u row j = None \<Longrightarrow> j \<le> i \<Longrightarrow> i < length row \<Longrightarrow> \<not> fl_lt (Fin u) (row ! i)"
proof (induction u row j rule: scan_row.induct)
  case (1 u PC_row j)
  from "1.prems" have jl: "j < length PC_row" by simp
  with "1.prems"(1) have nj: "\<not> fl_lt (Fin u) (PC_row ! j)"
    by (cases "fl_lt (Fin u) (PC_row ! j)") (simp_all add: scan_row.simps [of u PC_row j])
  with jl "1.prems"(1) have rest: "scan_row u PC_row (Suc j) = None"
    by (simp add: scan_row.simps [of u PC_row j])
  show ?case
  proof (cases "i = j")
    case True
    with nj show ?thesis by simp
  next
    case False
    with "1.prems" have "Suc j \<le> i" by simp
    with "1.IH" jl nj rest "1.prems"(3) show ?thesis by simp
  qed
qed

text \<open>
  C1. For a row and a draw \<open>u\<close> such that some entry of the row is above \<open>u\<close>,
  \<open>generate_state\<close> returns the smallest index whose entry is strictly above \<open>u\<close>: the
  entry at the returned index is above \<open>u\<close> and no entry before it is. The result is a
  function of the row and of \<open>u\<close>. With \<open>u = 0\<close> and a positive first entry the index
  is 0.
\<close>

theorem generate_state_smallest:
  "(j < length row \<and> fl_lt (Fin u) (row ! j) \<longrightarrow>
      (\<exists>k. generate_state u row = Some k \<and> k \<le> j \<and> fl_lt (Fin u) (row ! k) \<and>
           (\<forall>i<k. \<not> fl_lt (Fin u) (row ! i)))) \<and>
   (row \<noteq> [] \<and> fl_lt (Fin 0) (row ! 0) \<longrightarrow> generate_state 0 row = Some 0)"
proof (intro conjI impI)
  assume h: "j < length row \<and> fl_lt (Fin u) (row ! j)"
  have "generate_state u row \<noteq> None"
    using scan_row_None [of u row 0 j] h by (auto simp: generate_state_def)
  then obtain k where k: "generate_state u row = Some k" by blast
  from scan_row_Some [of u row 0 k] k
  have p: "k < length row" "fl_lt (Fin u) (row ! k)" "\<forall>i<k. \<not> fl_lt (Fin u) (row ! i)"
    by (auto simp: generate_state_def)
  from p(3) h have "k \<le> j" by (meson not_le_imp_less)
  with k p show "\<exists>k. generate_state u row = Some k \<and> k \<le> j \<and> fl_lt (Fin u) (row ! k) \<and>
           (\<forall>i<k. \<not> fl_lt (Fin u) (row ! i))" by blast
next
  assume "row \<noteq> [] \<and> fl_lt (Fin 0) (row ! 0)"
  then show "generate_state 0 row = Some 0"
    by (simp add: generate_state_def scan_row.simps [of 0 row 0])
qed

theorem generate_state_smallest_witness:
  "generate_state (1/2) [Fin (1/4), Fin (3/4), Fin 1] = Some 1 \<and>
   generate_state 0 [Fin (1/4), Fin (3/4), Fin 1] = Some 0"
  using generate_state_smallest [of 2 "[Fin (1/4), Fin (3/4), Fin 1]" "1/2"]
  by (simp add: generate_state_def scan_row.simps)

text \<open>
  C5. A draw that no entry of the row exceeds: the starting distribution
  \<open>[0.5, 0.5 - 2^-53]\<close> has the cumulative row \<open>[0.5, 1 - 2^-53]\<close>, which ends one
  rounding step below 1, and the draw is \<open>1 - 2^-53\<close>, the largest float below 1. The
  scan ends without a hit and the function returns \<open>None\<close>, not the last index.
\<close>

theorem generate_state_falls_through:
  "cumulative_matrix_1d [Fin (1/2), Fin (1/2 - 1 / 2 ^ 53)] = [Fin (1/2), Fin (1 - 1 / 2 ^ 53)] \<and>
   generate_state (1 - 1 / 2 ^ 53) [Fin (1/2), Fin (1 - 1 / 2 ^ 53)] = None"
  by (simp add: cumulative_matrix_1d_def np_sum_def upt_rec [of 1 3] upt_rec [of 2 3]
      generate_state_def scan_row.simps)

section \<open>Invariants of the step-budgeted loop\<close>

lemma transition_Inr:
  "transition cfg st = Inr st' \<Longrightarrow>
     all_walks st' = all_walks st \<and> final_states st' = final_states st \<and>
     walk st' = walk st @ [state_i st'] \<and> draws st' = Suc (draws st)"
  by (auto simp: transition_def Let_def split: option.splits)

lemma butlast_tl_snoc: "w \<noteq> [] \<Longrightarrow> butlast (tl (w @ [x])) = tl w"
  by (cases w) simp_all

lemma step_inv_step:
  assumes "step_inv (terminal_states cfg) st" and "step cfg st = Inr st'"
  shows "step_inv (terminal_states cfg) st'"
proof -
  from assms(2) obtain st1 where t: "transition cfg st = Inr st1"
    by (cases "transition cfg st") (simp_all add: step_def)
  note f = transition_Inr [OF t]
  show ?thesis
  proof (cases "in_terminal (state_i st1) (terminal_states cfg)")
    case True
    obtain s k where sk: "start_state cfg (draws st1) = (s, k)" by (cases "start_state cfg (draws st1)")
    from assms(2) t True sk
    have st': "st' = \<lparr>all_walks = all_walks st1 @ [walk st1],
                        final_states = final_states st1 @ [state_i st1],
                        state_i = s, walk = [s], draws = k\<rparr>"
      by (simp add: step_def)
    from assms(1) f True have "2 \<le> length (walk st1) \<and> walk_closed (terminal_states cfg) (walk st1)"
      by (cases "walk st") (simp_all add: step_inv_def walk_closed_def butlast_tl_snoc)
    with assms(1) f show ?thesis
      by (simp add: st' step_inv_def parallel_def)
  next
    case False
    with assms(2) t have "st' = st1" by (simp add: step_def)
    with assms(1) f False show ?thesis
      by (cases "walk st") (simp_all add: step_inv_def parallel_def)
  qed
qed

lemma step_inv_steps_loop:
  "step_inv (terminal_states cfg) st \<Longrightarrow> state_of (steps_loop cfg n st) = Some st' \<Longrightarrow>
     step_inv (terminal_states cfg) st'"
proof (induction n arbitrary: st)
  case 0
  then show ?case by simp
next
  case (Suc n)
  show ?case
  proof (cases "step cfg st")
    case (Inl e)
    with Suc.prems show ?thesis by simp
  next
    case (Inr st1)
    with Suc.prems have "state_of (steps_loop cfg n st1) = Some st'" by simp
    with Suc.IH step_inv_step [OF Suc.prems(1) Inr] show ?thesis by blast
  qed
qed

lemma step_inv_simulation:
  assumes "state_of (simulation P start ts steps r) = Some st"
  shows "step_inv ts st"
proof -
  define cfg where "cfg = \<lparr>PC = cumulative_matrix P, starting_state = start,
                         terminal_states = ts, rng = r\<rparr>"
  obtain s k where sk: "start_state cfg 0 = (s, k)" by (cases "start_state cfg 0")
  define st0 where "st0 = \<lparr>all_walks = [], final_states = [], state_i = s, walk = [s], draws = k\<rparr>"
  from assms have ok: "row_sums_are_one P"
    by (cases "row_sums_are_one P") (simp_all add: simulation_def)
  with assms sk have run: "state_of (steps_loop cfg steps st0) = Some st"
    by (simp add: simulation_def cfg_def [symmetric] st0_def)
  have "step_inv (terminal_states cfg) st0"
    by (simp add: step_inv_def st0_def parallel_def)
  from step_inv_steps_loop [OF this run] show ?thesis by (simp add: cfg_def)
qed

lemma in_progress_not_stored:
  assumes "step_inv ts st"
  shows "walk st \<notin> set (all_walks st)"
proof
  assume m: "walk st \<in> set (all_walks st)"
  with assms have l: "2 \<le> length (walk st)" and c: "in_terminal (last (walk st)) ts"
    by (auto simp: step_inv_def list_all_iff walk_closed_def)
  from l have "last (walk st) \<in> set (tl (walk st))"
    by (cases "walk st") (auto simp: last_in_set)
  with assms c show False by (auto simp: step_inv_def list_all_iff)
qed

section \<open>The walk-budgeted loops\<close>

lemma list_all_butlast_last:
  "w \<noteq> [] \<Longrightarrow> list_all Q (butlast w) \<Longrightarrow> Q (last w) \<Longrightarrow> list_all Q w"
  by (induction w) (auto split: if_splits)

lemma until_terminal_post_aux:
  assumes "until_terminal cfg st = Some res"
  shows "walk_inv (terminal_states cfg) st \<longrightarrow> until_post cfg st res"
proof (rule until_terminal.raw_induct
    [OF _ assms, where P = "\<lambda>c s r. walk_inv (terminal_states c) s \<longrightarrow> until_post c s r"])
  fix f :: "config \<Rightarrow> sim \<Rightarrow> run option" and c s r
  assume IH: "\<And>c s r. f c s = Some r \<Longrightarrow> walk_inv (terminal_states c) s \<longrightarrow> until_post c s r"
    and eq: "(if in_terminal (state_i s) (terminal_states c) then Some (Completed s)
              else case transition c s of Inl e \<Rightarrow> Some (Stopped e s) | Inr s' \<Rightarrow> f c s') = Some r"
  show "walk_inv (terminal_states c) s \<longrightarrow> until_post c s r"
  proof
    assume inv: "walk_inv (terminal_states c) s"
    show "until_post c s r"
    proof (cases "in_terminal (state_i s) (terminal_states c)")
      case True
      with eq have "r = Completed s" by simp
      with True inv show ?thesis by (auto simp: until_post_def same_collections_def)
    next
      case False
      show ?thesis
      proof (cases "transition c s")
        case (Inl e)
        with False eq have "r = Stopped e s" by simp
        then show ?thesis by (auto simp: until_post_def same_collections_def)
      next
        case (Inr s1)
        with False eq have rec: "f c s1 = Some r" by simp
        note f = transition_Inr [OF Inr]
        from inv False
        have "list_all (\<lambda>x. \<not> in_terminal x (terminal_states c)) (walk s)"
          by (auto simp: walk_inv_def intro: list_all_butlast_last)
        with f have "walk_inv (terminal_states c) s1"
          by (simp add: walk_inv_def)
        with IH [OF rec] have "until_post c s1 r" by simp
        with f show ?thesis
          by (auto simp: until_post_def same_collections_def)
      qed
    qed
  qed
qed

lemma until_terminal_post:
  assumes "until_terminal cfg st = Some res" and "walk_inv (terminal_states cfg) st"
  shows "\<exists>st'. same_collections st st' \<and>
           (res = Completed st' \<and> walk_inv (terminal_states cfg) st' \<and>
              in_terminal (state_i st') (terminal_states cfg)
            \<or> (\<exists>e. res = Stopped e st'))"
  using until_terminal_post_aux [OF assms(1)] assms(2) by (simp add: until_post_def)

lemma walks_loop_post:
  "walks_loop cfg n st = Some res \<Longrightarrow>
     \<exists>st' ws. state_of res = Some st' \<and> all_walks st' = all_walks st @ ws \<and>
        final_states st' = final_states st @ map last ws \<and>
        list_all (strictly_closed (terminal_states cfg)) ws"
proof (induction n arbitrary: st)
  case 0
  then show ?case by auto
next
  case (Suc n)
  obtain s k where sk: "start_state cfg (draws st) = (s, k)"
    by (cases "start_state cfg (draws st)")
  define st0 where "st0 = st\<lparr>state_i := s, walk := [s], draws := k\<rparr>"
  have inv0: "walk_inv (terminal_states cfg) st0" by (simp add: st0_def walk_inv_def)
  from Suc.prems sk obtain r1 where r1: "until_terminal cfg st0 = Some r1"
    by (cases "until_terminal cfg st0") (simp_all add: st0_def)
  from until_terminal_post [OF r1 inv0] obtain st1 where
    same: "same_collections st0 st1" and
    alt: "r1 = Completed st1 \<and> walk_inv (terminal_states cfg) st1 \<and>
              in_terminal (state_i st1) (terminal_states cfg)
            \<or> (\<exists>e. r1 = Stopped e st1)" by blast
  from alt show ?case
  proof
    assume c: "r1 = Completed st1 \<and> walk_inv (terminal_states cfg) st1 \<and>
              in_terminal (state_i st1) (terminal_states cfg)"
    define st2 where "st2 = st1\<lparr>final_states := final_states st1 @ [state_i st1],
                    all_walks := all_walks st1 @ [walk st1]\<rparr>"
    from Suc.prems sk r1 c have "walks_loop cfg n st2 = Some res"
      by (simp add: st0_def [symmetric] st2_def)
    from Suc.IH [OF this] obtain st' ws where
      p: "state_of res = Some st'" "all_walks st' = all_walks st2 @ ws"
         "final_states st' = final_states st2 @ map last ws"
         "list_all (strictly_closed (terminal_states cfg)) ws" by blast
    from c have "strictly_closed (terminal_states cfg) (walk st1)" "last (walk st1) = state_i st1"
      by (simp_all add: walk_inv_def strictly_closed_def)
    with p same have "state_of res = Some st' \<and> all_walks st' = all_walks st @ (walk st1 # ws) \<and>
        final_states st' = final_states st @ map last (walk st1 # ws) \<and>
        list_all (strictly_closed (terminal_states cfg)) (walk st1 # ws)"
      by (simp add: st2_def same_collections_def st0_def)
    then show ?thesis by blast
  next
    assume "\<exists>e. r1 = Stopped e st1"
    then obtain e where e: "r1 = Stopped e st1" by blast
    with Suc.prems sk r1 have "res = Stopped e st1" by (simp add: st0_def [symmetric])
    with same have "state_of res = Some st1 \<and> all_walks st1 = all_walks st @ [] \<and>
        final_states st1 = final_states st @ map last [] \<and>
        list_all (strictly_closed (terminal_states cfg)) []"
      by (simp add: same_collections_def st0_def)
    then show ?thesis by blast
  qed
qed

lemma strictly_closed_walk_closed: "strictly_closed ts w \<Longrightarrow> walk_closed ts w"
  by (cases w) (auto simp: strictly_closed_def walk_closed_def list_all_iff dest: in_set_butlastD split: if_splits)

lemma list_all_mono: "list_all Q xs \<Longrightarrow> (\<And>x. Q x \<Longrightarrow> R x) \<Longrightarrow> list_all R xs"
  by (auto simp: list_all_iff)

section \<open>Two concrete runs\<close>

lemma run_a:
  "simulation [[Fin 0, Fin 1], [Fin 1, Fin 0]] (StartIndex 0) [0] 3 (\<lambda>k. 1/2) =
     Completed \<lparr>all_walks = [[Some 0, Some 1, Some 0]], final_states = [Some 0],
                state_i = Some 1, walk = [Some 0, Some 1], draws = 3\<rparr>"
  by (simp add: simulation_def row_sums_are_one_def np_sum_def fl_sub_def cumulative_matrix_def
      ncols_def numeral_3_eq_3 upt_rec [of 1 3] upt_rec [of 2 3]  Let_def start_state_def step_def transition_def
      np_getitem_def generate_state_def scan_row.simps in_terminal_def)

lemma run_b:
  "walks_loop \<lparr>PC = [[Fin 0, Fin 1], [Fin 1, Fin 1]], starting_state = StartIndex 0,
       terminal_states = [1], rng = (\<lambda>k. 1/2)\<rparr> 2
     \<lparr>all_walks = [], final_states = [], state_i = None, walk = [], draws = 0\<rparr> =
   Some (Completed \<lparr>all_walks = [[Some 0, Some 1], [Some 0, Some 1]],
     final_states = [Some 1, Some 1], state_i = Some 1, walk = [Some 0, Some 1], draws = 2\<rparr>)"
  by (simp add: numeral_2_eq_2 Let_def start_state_def until_terminal.simps in_terminal_def
      transition_def np_getitem_def generate_state_def scan_row.simps)



section \<open>Completed walks\<close>

text \<open>
  C2. In both modes every walk of \<open>all_walks\<close> ends with a terminal state and has no
  terminal state strictly between its first and its last state. In step-budgeted mode
  this holds of the collection after any number of steps, also where a run stops on an
  error, and the walk in progress is not in the collection. In walk-budgeted mode the
  cell appends to the collection it finds: when the walks found there are closed, so
  are all walks after a run that returns.
\<close>

theorem completed_walks_closed:
  "(state_of (simulation P start ts steps r) = Some st \<longrightarrow>
      list_all (walk_closed ts) (all_walks st) \<and> walk st \<notin> set (all_walks st)) \<and>
   (list_all (walk_closed (terminal_states cfg)) (all_walks st0) \<and>
    walks_loop cfg n st0 = Some res \<longrightarrow>
      (\<exists>st'. state_of res = Some st' \<and>
         list_all (walk_closed (terminal_states cfg)) (all_walks st')))"
proof (rule conjI; rule impI)
  assume a: "state_of (simulation P start ts steps r) = Some st"
  from step_inv_simulation [OF a] have inv: "step_inv ts st" .
  then have "list_all (walk_closed ts) (all_walks st)"
    by (simp add: step_inv_def list_all_iff)
  with in_progress_not_stored [OF inv]
  show "list_all (walk_closed ts) (all_walks st) \<and> walk st \<notin> set (all_walks st)" by simp
next
  assume a: "list_all (walk_closed (terminal_states cfg)) (all_walks st0) \<and>
    walks_loop cfg n st0 = Some res"
  then have run: "walks_loop cfg n st0 = Some res" by simp
  from walks_loop_post [OF run] obtain st' ws where
    p: "state_of res = Some st'" "all_walks st' = all_walks st0 @ ws"
       "list_all (strictly_closed (terminal_states cfg)) ws" by blast
  from p(3) have "list_all (walk_closed (terminal_states cfg)) ws"
    by (rule list_all_mono) (rule strictly_closed_walk_closed)
  with a p show "\<exists>st'. state_of res = Some st' \<and>
         list_all (walk_closed (terminal_states cfg)) (all_walks st')" by simp
qed

theorem completed_walks_closed_witness:
  "state_of (simulation [[Fin 0, Fin 1], [Fin 1, Fin 0]] (StartIndex 0) [0] 3 (\<lambda>k. 1/2)) =
     Some \<lparr>all_walks = [[Some 0, Some 1, Some 0]], final_states = [Some 0],
            state_i = Some 1, walk = [Some 0, Some 1], draws = 3\<rparr> \<and>
   list_all (walk_closed [0]) [[Some 0, Some 1, Some 0]] \<and>
   [Some 0, Some 1] \<notin> set [[Some 0, Some 1, Some (0::int)]] \<and>
   walks_loop \<lparr>PC = [[Fin 0, Fin 1], [Fin 1, Fin 1]], starting_state = StartIndex 0,
       terminal_states = [1], rng = (\<lambda>k. 1/2)\<rparr> 2
     \<lparr>all_walks = [], final_states = [], state_i = None, walk = [], draws = 0\<rparr> =
   Some (Completed \<lparr>all_walks = [[Some 0, Some 1], [Some 0, Some 1]],
     final_states = [Some 1, Some 1], state_i = Some 1, walk = [Some 0, Some 1], draws = 2\<rparr>) \<and>
   list_all (walk_closed [1]) [[Some 0, Some 1], [Some 0, Some 1]]"
  using completed_walks_closed
    [of "[[Fin 0, Fin 1], [Fin 1, Fin 0]]" "StartIndex 0" "[0]" 3 "\<lambda>k. 1/2"
        "\<lparr>all_walks = [[Some 0, Some 1, Some 0]], final_states = [Some 0],
            state_i = Some 1, walk = [Some 0, Some 1], draws = 3\<rparr>"
        "\<lparr>PC = [[Fin 0, Fin 1], [Fin 1, Fin 1]], starting_state = StartIndex 0,
           terminal_states = [1], rng = (\<lambda>k. 1/2)\<rparr>"
        "\<lparr>all_walks = [], final_states = [], state_i = None, walk = [], draws = 0\<rparr>"
        2
        "Completed \<lparr>all_walks = [[Some 0, Some 1], [Some 0, Some 1]],
     final_states = [Some 1, Some 1], state_i = Some 1, walk = [Some 0, Some 1], draws = 2\<rparr>"]
  by (simp add: run_a run_b)

text \<open>
  C10. In both modes \<open>final_states\<close> and \<open>all_walks\<close> have the same length and the
  \<open>k\<close>-th final state is the last state of the \<open>k\<close>-th walk: after any number of
  steps of the step-budgeted loop, and after a run of the walk-budgeted cell that
  returns, when the collections it started from were parallel.
\<close>

theorem collections_parallel:
  "(state_of (simulation P start ts steps r) = Some st \<longrightarrow>
      length (final_states st) = length (all_walks st) \<and>
      (\<forall>k<length (all_walks st). final_states st ! k = last (all_walks st ! k))) \<and>
   (parallel st0 \<and> walks_loop cfg n st0 = Some res \<longrightarrow>
      (\<exists>st'. state_of res = Some st' \<and>
         length (final_states st') = length (all_walks st') \<and>
         (\<forall>k<length (all_walks st'). final_states st' ! k = last (all_walks st' ! k))))"
proof (rule conjI; rule impI)
  assume a: "state_of (simulation P start ts steps r) = Some st"
  from step_inv_simulation [OF a] have "parallel st" by (simp add: step_inv_def)
  then show "length (final_states st) = length (all_walks st) \<and>
      (\<forall>k<length (all_walks st). final_states st ! k = last (all_walks st ! k))"
    by (simp add: parallel_def)
next
  assume a: "parallel st0 \<and> walks_loop cfg n st0 = Some res"
  then have run: "walks_loop cfg n st0 = Some res" by simp
  from walks_loop_post [OF run] obtain st' ws where
    p: "state_of res = Some st'" "all_walks st' = all_walks st0 @ ws"
       "final_states st' = final_states st0 @ map last ws" by blast
  with a have "final_states st' = map last (all_walks st')" by (simp add: parallel_def)
  then have "length (final_states st') = length (all_walks st') \<and>
         (\<forall>k<length (all_walks st'). final_states st' ! k = last (all_walks st' ! k))"
    by simp
  with p(1) show "\<exists>st'. state_of res = Some st' \<and>
         length (final_states st') = length (all_walks st') \<and>
         (\<forall>k<length (all_walks st'). final_states st' ! k = last (all_walks st' ! k))" by blast
qed

theorem collections_parallel_witness:
  "state_of (simulation [[Fin 0, Fin 1], [Fin 1, Fin 0]] (StartIndex 0) [0] 3 (\<lambda>k. 1/2)) =
     Some \<lparr>all_walks = [[Some 0, Some 1, Some 0]], final_states = [Some 0],
            state_i = Some 1, walk = [Some 0, Some 1], draws = 3\<rparr> \<and>
   length [Some (0::int)] = length [[Some 0, Some 1, Some (0::int)]] \<and>
   [Some (0::int)] ! 0 = last ([[Some 0, Some 1, Some 0]] ! 0) \<and>
   parallel \<lparr>all_walks = [], final_states = [], state_i = None, walk = [], draws = 0\<rparr> \<and>
   walks_loop \<lparr>PC = [[Fin 0, Fin 1], [Fin 1, Fin 1]], starting_state = StartIndex 0,
       terminal_states = [1], rng = (\<lambda>k. 1/2)\<rparr> 2
     \<lparr>all_walks = [], final_states = [], state_i = None, walk = [], draws = 0\<rparr> =
   Some (Completed \<lparr>all_walks = [[Some 0, Some 1], [Some 0, Some 1]],
     final_states = [Some 1, Some 1], state_i = Some 1, walk = [Some 0, Some 1], draws = 2\<rparr>) \<and>
   [Some (1::int), Some 1] ! 1 = last ([[Some 0, Some 1], [Some 0, Some 1]] ! 1)"
  using collections_parallel
    [of "[[Fin 0, Fin 1], [Fin 1, Fin 0]]" "StartIndex 0" "[0]" 3 "\<lambda>k. 1/2"
        "\<lparr>all_walks = [[Some 0, Some 1, Some 0]], final_states = [Some 0],
            state_i = Some 1, walk = [Some 0, Some 1], draws = 3\<rparr>"
        "\<lparr>all_walks = [], final_states = [], state_i = None, walk = [], draws = 0\<rparr>"
        "\<lparr>PC = [[Fin 0, Fin 1], [Fin 1, Fin 1]], starting_state = StartIndex 0,
           terminal_states = [1], rng = (\<lambda>k. 1/2)\<rparr>"
        2
        "Completed \<lparr>all_walks = [[Some 0, Some 1], [Some 0, Some 1]],
     final_states = [Some 1, Some 1], state_i = Some 1, walk = [Some 0, Some 1], draws = 2\<rparr>"]
  by (simp add: run_a run_b parallel_def)

section \<open>A terminal starting state in step-budgeted mode\<close>




section \<open>Rows that do not sum to 1 are rejected\<close>

lemma fl_add_fin: "is_fin (fl_add x y) \<longleftrightarrow> is_fin x \<and> is_fin y"
  by (cases x; cases y) simp_all

lemma foldl_fl_add_fin: "is_fin (foldl fl_add a xs) \<longleftrightarrow> is_fin a \<and> list_all is_fin xs"
  by (induction xs arbitrary: a) (auto simp: fl_add_fin)

lemma np_sum_fin: "is_fin (np_sum xs) \<longleftrightarrow> list_all is_fin xs"
  by (simp add: np_sum_def foldl_fl_add_fin)

lemma fl_div_zero_not_fin: "\<not> is_fin (fl_div x (Fin 0))"
  by (cases x) simp_all

lemma not_fin_not_near_one:
  "\<not> is_fin x \<Longrightarrow> \<not> fl_lt (fl_abs (fl_sub x (Fin 1))) (Fin e)"
  by (cases x) (simp_all add: fl_sub_def)

lemma zero_sum_row_rejected:
  assumes "np_sum row = Fin 0"
  shows "\<not> fl_lt (fl_abs (fl_sub (np_sum (map (\<lambda>x. fl_div x (np_sum row)) row)) (Fin 1)))
             (Fin (1 / 100000))"
proof (cases row)
  case Nil
  then show ?thesis by (simp add: np_sum_def fl_sub_def)
next
  case (Cons x xs)
  have "\<not> is_fin (fl_div x (np_sum row))"
    by (simp only: assms fl_div_zero_not_fin not_False_eq_True)
  with Cons have "\<not> list_all is_fin (map (\<lambda>x. fl_div x (np_sum row)) row)"
    by simp
  then have "\<not> is_fin (np_sum (map (\<lambda>x. fl_div x (np_sum row)) row))"
    by (simp only: np_sum_fin not_False_eq_True)
  then show ?thesis by (rule not_fin_not_near_one)
qed

lemma steps_loop_state: "state_of (steps_loop cfg n st) \<noteq> None"
  by (induction n arbitrary: st) (auto split: sum.splits)

lemma simulation_failed_iff:
  "simulation P start ts steps r = AssertionFailed \<longleftrightarrow> \<not> row_sums_are_one P"
proof (cases "row_sums_are_one P")
  case True
  have "steps_loop cfg n st \<noteq> AssertionFailed" for cfg n st
    using steps_loop_state [of cfg n st] by (cases "steps_loop cfg n st") simp_all
  with True show ?thesis by (simp add: simulation_def Let_def split: prod.splits)
next
  case False
  then show ?thesis by (simp add: simulation_def)
qed

lemma zero_sum_fails_assertion:
  assumes "row \<in> set P" and "np_sum row = Fin 0"
  shows "\<not> row_sums_are_one (normalized P)"
proof -
  from assms(1) have "(\<lambda>row. map (\<lambda>x. fl_div x (np_sum row)) row) row
      \<in> (\<lambda>row. map (\<lambda>x. fl_div x (np_sum row)) row) ` set P" by (rule imageI)
  then have "map (\<lambda>x. fl_div x (np_sum row)) row \<in> set (normalized P)"
    by (simp only: normalized_def set_map)
  with zero_sum_row_rejected [OF assms(2)] show ?thesis
    by (auto simp: row_sums_are_one_def list_all_iff)
qed

text \<open>
  C3. The simulation cell takes the normalised matrix. Either all its rows sum to 1
  within \<open>1e-5\<close> and the cell goes on, or the assertion fails, before the collections
  exist and before any draw. A row whose weights sum to zero is divided by zero: its
  entries become infinities or NaN, their sum is not a finite number, the comparison
  with the tolerance is false and the assertion fails. (The spec's
  \<open>MalformedDistribution\<close> is the failing assertion of the source.)
\<close>

theorem malformed_rows_rejected:
  "(row_sums_are_one (normalized P) \<and>
      simulation (normalized P) start ts steps r \<noteq> AssertionFailed
    \<or> \<not> row_sums_are_one (normalized P) \<and>
      simulation (normalized P) start ts steps r = AssertionFailed) \<and>
   (row \<in> set P \<and> np_sum row = Fin 0 \<longrightarrow>
      simulation (normalized P) start ts steps r = AssertionFailed)"
proof (rule conjI)
  show "row_sums_are_one (normalized P) \<and>
      simulation (normalized P) start ts steps r \<noteq> AssertionFailed
    \<or> \<not> row_sums_are_one (normalized P) \<and>
      simulation (normalized P) start ts steps r = AssertionFailed"
    by (simp add: simulation_failed_iff)
next
  show "row \<in> set P \<and> np_sum row = Fin 0 \<longrightarrow>
      simulation (normalized P) start ts steps r = AssertionFailed"
  proof
    assume a: "row \<in> set P \<and> np_sum row = Fin 0"
    then have "row \<in> set P" and "np_sum row = Fin 0" by simp_all
    then have "\<not> row_sums_are_one (normalized P)"
      by (rule zero_sum_fails_assertion)
    then show "simulation (normalized P) start ts steps r = AssertionFailed"
      by (simp add: simulation_failed_iff)
  qed
qed

theorem malformed_rows_rejected_witness:
  "[Fin 0, Fin 0] \<in> set [[Fin 0, Fin 0], [Fin 1, Fin 1]] \<and> np_sum [Fin 0, Fin 0] = Fin 0 \<and>
   normalized [[Fin 0, Fin 0], [Fin 1, Fin 1]] = [[NaN, NaN], [Fin (1/2), Fin (1/2)]] \<and>
   simulation (normalized [[Fin 0, Fin 0], [Fin 1, Fin 1]]) (StartIndex 1) [0] 5 (\<lambda>k. 1/2) =
     AssertionFailed"
  using malformed_rows_rejected
    [of "[[Fin 0, Fin 0], [Fin 1, Fin 1]]" "StartIndex 1" "[0]" 5 "\<lambda>k. 1/2" "[Fin 0, Fin 0]"]
  by (simp add: np_sum_def normalized_def)

section \<open>The cumulative matrix holds the prefix sums of the rows\<close>







section \<open>Absorption proportions\<close>

lemma absorbed_Cons:
  "absorbed (x # fs) j = (if x = Some j then 1 else 0) + absorbed fs j"
  by (simp add: absorbed_def)

lemma sum_absorbed:
  "list_all (\<lambda>x. in_terminal x ts) fs \<Longrightarrow> (\<Sum>j\<in>set ts. absorbed fs j) = int (length fs)"
proof (induction fs)
  case Nil
  then show ?case by (simp add: absorbed_def)
next
  case (Cons x fs)
  from Cons.prems obtain j0 where x: "x = Some j0" "j0 \<in> set ts"
    by (cases x) (simp_all add: in_terminal_def)
  have "(\<Sum>j\<in>set ts. absorbed (x # fs) j) =
        (\<Sum>j\<in>set ts. if j0 = j then 1 else 0) + (\<Sum>j\<in>set ts. absorbed fs j)"
    by (simp add: absorbed_Cons x sum.distrib)
  also have "(\<Sum>j\<in>set ts. if j0 = j then 1 else 0) = (1::int)"
    using x(2) by simp
  finally show ?case using Cons by simp
qed

lemma proportions_eq:
  "fs \<noteq> [] \<Longrightarrow>
     absorption_proportions fs ts =
       Inr (map (\<lambda>j. real_of_int (absorbed fs j) / real (length fs)) ts)"
  by (induction ts) (simp_all add: py_truediv_def)

lemma simulation_final_states:
  assumes "state_of (simulation P start ts steps r) = Some st"
  shows "list_all (\<lambda>x. in_terminal x ts) (final_states st)"
proof -
  from step_inv_simulation [OF assms]
  have "final_states st = map last (all_walks st)"
    and "list_all (\<lambda>w. in_terminal (last w) ts) (all_walks st)"
    by (simp_all add: step_inv_def parallel_def walk_closed_def list_all_iff)
  then show ?thesis by (simp add: list_all_iff)
qed

lemma walks_loop_final_states:
  assumes "list_all (\<lambda>x. in_terminal x (terminal_states cfg)) (final_states st0)"
    and "walks_loop cfg n st0 = Some res"
  shows "\<exists>st'. state_of res = Some st' \<and>
           list_all (\<lambda>x. in_terminal x (terminal_states cfg)) (final_states st')"
proof -
  from walks_loop_post [OF assms(2)] obtain st' ws where
    p: "state_of res = Some st'" "final_states st' = final_states st0 @ map last ws"
       "list_all (strictly_closed (terminal_states cfg)) ws" by blast
  from p(3) have "list_all (\<lambda>x. in_terminal x (terminal_states cfg)) (map last ws)"
    by (simp add: list_all_iff strictly_closed_def)
  with assms(1) p show ?thesis by simp
qed

text \<open>
  C7. When the list of final states is not empty and every final state is terminal, the
  division raises nothing, the result lists for each terminal state the number of final
  states equal to it over the number of walks, and these fractions, summed over the set
  of terminal states, give 1; the printed list itself sums to 1 when it names each
  terminal state once. Every final state the two loops record is terminal.
\<close>

theorem absorption_proportions_sum_to_one:
  "(fs \<noteq> [] \<and> list_all (\<lambda>x. in_terminal x ts) fs \<longrightarrow>
      absorption_proportions fs ts =
        Inr (map (\<lambda>j. real_of_int (absorbed fs j) / real (length fs)) ts) \<and>
      (\<Sum>j\<in>set ts. real_of_int (absorbed fs j) / real (length fs)) = 1 \<and>
      (distinct ts \<longrightarrow>
         sum_list (map (\<lambda>j. real_of_int (absorbed fs j) / real (length fs)) ts) = 1)) \<and>
   (state_of (simulation P start ts' steps r) = Some st \<longrightarrow>
      list_all (\<lambda>x. in_terminal x ts') (final_states st)) \<and>
   (list_all (\<lambda>x. in_terminal x (terminal_states cfg)) (final_states st0) \<and>
    walks_loop cfg n st0 = Some res \<longrightarrow>
      (\<exists>st'. state_of res = Some st' \<and>
         list_all (\<lambda>x. in_terminal x (terminal_states cfg)) (final_states st')))"
proof -
  have one: "(\<Sum>j\<in>set ts. real_of_int (absorbed fs j) / real (length fs)) = 1"
    if "fs \<noteq> []" "list_all (\<lambda>x. in_terminal x ts) fs"
  proof -
    have "(\<Sum>j\<in>set ts. real_of_int (absorbed fs j) / real (length fs)) =
          real_of_int (\<Sum>j\<in>set ts. absorbed fs j) / real (length fs)"
      by (simp add: sum_divide_distrib)
    also have "\<dots> = real (length fs) / real (length fs)"
      by (simp add: sum_absorbed [OF that(2)])
    also have "\<dots> = 1" using that(1) by simp
    finally show ?thesis .
  qed
  have dist: "sum_list (map (\<lambda>j. real_of_int (absorbed fs j) / real (length fs)) ts) = 1"
    if "fs \<noteq> []" "list_all (\<lambda>x. in_terminal x ts) fs" "distinct ts"
    using one [OF that(1,2)] that(3) by (simp add: sum_list_distinct_conv_sum_set)
  from one dist proportions_eq [of fs ts] simulation_final_states [of P start ts' steps r st]
    walks_loop_final_states [of cfg st0 n res]
  show ?thesis by blast
qed

theorem absorption_proportions_sum_to_one_witness:
  "list_all (\<lambda>x. in_terminal x [0, 3]) [Some 0, Some 3, Some 3, Some 0] \<and>
   absorption_proportions [Some 0, Some 3, Some 3, Some 0] [0, 3] = Inr [1/2, 1/2] \<and>
   (\<Sum>j\<in>set [0, 3]. real_of_int (absorbed [Some 0, Some 3, Some 3, Some 0] j) /
      real (length [Some 0, Some 3, Some 3, Some (0::int)])) = 1 \<and>
   state_of (simulation [[Fin 0, Fin 1], [Fin 1, Fin 0]] (StartIndex 0) [0] 3 (\<lambda>k. 1/2)) =
     Some \<lparr>all_walks = [[Some 0, Some 1, Some 0]], final_states = [Some 0],
            state_i = Some 1, walk = [Some 0, Some 1], draws = 3\<rparr> \<and>
   walks_loop \<lparr>PC = [[Fin 0, Fin 1], [Fin 1, Fin 1]], starting_state = StartIndex 0,
       terminal_states = [1], rng = (\<lambda>k. 1/2)\<rparr> 2
     \<lparr>all_walks = [], final_states = [], state_i = None, walk = [], draws = 0\<rparr> =
   Some (Completed \<lparr>all_walks = [[Some 0, Some 1], [Some 0, Some 1]],
     final_states = [Some 1, Some 1], state_i = Some 1, walk = [Some 0, Some 1], draws = 2\<rparr>) \<and>
   list_all (\<lambda>x. in_terminal x [0]) [Some 0] \<and>
   list_all (\<lambda>x. in_terminal x [1]) [Some 1, Some 1]"
  using absorption_proportions_sum_to_one
    [of "[Some 0, Some 3, Some 3, Some 0]" "[0, 3]"
        "[[Fin 0, Fin 1], [Fin 1, Fin 0]]" "StartIndex 0" "[0]" 3 "\<lambda>k. 1/2"
        "\<lparr>all_walks = [[Some 0, Some 1, Some 0]], final_states = [Some 0],
            state_i = Some 1, walk = [Some 0, Some 1], draws = 3\<rparr>"
        "\<lparr>PC = [[Fin 0, Fin 1], [Fin 1, Fin 1]], starting_state = StartIndex 0,
           terminal_states = [1], rng = (\<lambda>k. 1/2)\<rparr>"
        "\<lparr>all_walks = [], final_states = [], state_i = None, walk = [], draws = 0\<rparr>"
        2
        "Completed \<lparr>all_walks = [[Some 0, Some 1], [Some 0, Some 1]],
     final_states = [Some 1, Some 1], state_i = Some 1, walk = [Some 0, Some 1], draws = 2\<rparr>"]
  by (simp add: run_a run_b in_terminal_def absorbed_def)

text \<open>
  C8, as stated, fails: with no terminal state no walk completes, and the proportions
  over the empty list of final states are the empty list; nothing is raised.
\<close>

theorem empty_aggregate_unsignalled:
  "state_of (simulation [[Fin 1]] (StartIndex 0) [] 2 (\<lambda>k. 1/2)) =
     Some \<lparr>all_walks = [], final_states = [], state_i = Some 0,
            walk = [Some 0, Some 0, Some 0], draws = 2\<rparr> \<and>
   absorption_proportions [] [] = Inr []"
  by (simp add: simulation_def row_sums_are_one_def np_sum_def fl_sub_def cumulative_matrix_def
      ncols_def numeral_2_eq_2 Let_def start_state_def step_def transition_def
      np_getitem_def generate_state_def scan_row.simps in_terminal_def)

text \<open>
  C8, amended. With no completed walk and at least one terminal state the first
  division raises Python's \<open>ZeroDivisionError\<close>: no NaN is returned, and the source
  has no condition of its own for the empty aggregate.
\<close>

theorem empty_aggregate_divides_by_zero:
  "ts \<noteq> [] \<longrightarrow> absorption_proportions [] ts = Inl ZeroDivisionError"
  by (cases ts) (simp_all add: py_truediv_def)

theorem empty_aggregate_divides_by_zero_witness:
  "[0, 3] \<noteq> ([] :: int list) \<and> absorption_proportions [] [0, 3] = Inl ZeroDivisionError"
  using empty_aggregate_divides_by_zero [of "[0, 3]"] by simp

section \<open>Holding times\<close>

text \<open>
  In the notebook \<open>q\<close> is \<open>row_sums\<close>. A state whose leaving rate is zero is then a
  row that sums to zero, and the assertion of the simulation cell fails on the
  normalised matrix: the walks of such a run never reach the holding times.
\<close>

lemma zero_rate_fails_assertion:
  assumes "s < length P" and "leaving_rates P ! s = Fin 0"
  shows "simulation (normalized P) start ts steps r = AssertionFailed"
proof -
  from assms have "P ! s \<in> set P" "np_sum (P ! s) = Fin 0"
    by (simp_all add: leaving_rates_def row_sums_def)
  then have "\<not> row_sums_are_one (normalized P)" by (rule zero_sum_fails_assertion)
  then show ?thesis by (simp add: simulation_failed_iff)
qed





end
